theory Spec2Isabelle
  imports Main
begin

section \<open>Data model of \<^verbatim>\<open>src/streamlit/app.py\<close>\<close>

subsection \<open>Python strings\<close>

text \<open>
  A Python \<^verbatim>\<open>str\<close> is a sequence of Unicode code points and \<^verbatim>\<open>len\<close> counts code
  points, so a string is a list of code points here. \<open>ascii\<close> writes an ASCII literal;
  the three Korean literals of the source are given by their code points.
\<close>

type_synonym pystr = "nat list"

definition ascii :: "string \<Rightarrow> pystr" where
  "ascii s = map of_char s"

text \<open>The Korean literal before \<^verbatim>\<open>{tool_name}\<close> in the f-string of a stored tool notice
  (lines 123 and 178): seven code points, the last three being a space, a colon and a space.\<close>

definition tool_exec_prefix :: pystr where
  "tool_exec_prefix = [46020, 44396, 32, 49892, 54665, 58, 32]"

text \<open>The Korean literal after \<^verbatim>\<open>{tool_name}\<close> in the f-string of the running indicator
  (line 93): eight code points, the first a space and the last three full stops.\<close>

definition running_suffix :: pystr where
  "running_suffix = [32, 49892, 54665, 32, 51473, 46, 46, 46]"

text \<open>The two code points of the default in \<^verbatim>\<open>message.get("tool_name", ...)\<close> (line 92).\<close>

definition default_tool_name :: pystr where
  "default_tool_name = [46020, 44396]"

subsection \<open>Message content\<close>

text \<open>
  The \<^verbatim>\<open>content\<close> of a LangChain message is a \<^verbatim>\<open>str\<close> or a list of content blocks.
  The source looks at a content in three ways: its truth value (\<^verbatim>\<open>elif last_message.content\<close>,
  \<^verbatim>\<open>if final_answer\<close>), its stringification (\<^verbatim>\<open>str(last_message.content)\<close>) and as an
  opaque value handed on. Both a \<^verbatim>\<open>str\<close> and a list are true exactly when they are not
  empty. \<^verbatim>\<open>str\<close> of a \<^verbatim>\<open>str\<close> is the string itself; \<^verbatim>\<open>str\<close> of a list is Python's
  \<^verbatim>\<open>repr\<close> of it, which is a parameter \<open>py_repr\<close> of the model.
\<close>

datatype 'b content = Text pystr | Blocks "'b list"

fun truthy :: "'b content \<Rightarrow> bool" where
  "truthy (Text s) = (s \<noteq> [])"
| "truthy (Blocks bs) = (bs \<noteq> [])"

fun py_str :: "('b list \<Rightarrow> pystr) \<Rightarrow> 'b content \<Rightarrow> pystr" where
  "py_str py_repr (Text s) = s"
| "py_str py_repr (Blocks bs) = py_repr bs"

subsection \<open>Session messages and the session state\<close>

text \<open>
  A stored message is a dict with the keys \<^verbatim>\<open>"role"\<close> and \<^verbatim>\<open>"content"\<close> and, for tool
  notices, \<^verbatim>\<open>"tool_name"\<close>. Every dict literal of the source has the first two keys;
  the third is optional, as \<^verbatim>\<open>message.get("tool_name", ...)\<close> allows. The role is a
  Python string, compared with \<^verbatim>\<open>==\<close>.
\<close>

record 'b message =
  role :: pystr
  content :: "'b content"
  tool_name :: "pystr option"

text \<open>\<^verbatim>\<open>st.session_state\<close> after \<^verbatim>\<open>initialize_session_state\<close>: both keys are present.\<close>

record 'b session_state =
  messages :: "'b message list"
  thread_id :: pystr

text \<open>The dict literal \<^verbatim>\<open>{"role": "user", "content": user_input}\<close>.\<close>

definition user_message :: "pystr \<Rightarrow> 'b message" where
  "user_message user_input =
     \<lparr>role = ascii ''user'', content = Text user_input, tool_name = None\<rparr>"

text \<open>The dict literal \<^verbatim>\<open>{"role": "assistant", "content": final_answer}\<close>.\<close>

definition assistant_message :: "'b content \<Rightarrow> 'b message" where
  "assistant_message final_answer =
     \<lparr>role = ascii ''assistant'', content = final_answer, tool_name = None\<rparr>"

text \<open>
  The dict literal
  \<^verbatim>\<open>{"role": "tool", "content": f"...: {tool_name}", "tool_name": tool_name}\<close>,
  written out twice in the source (lines 121-125 and 176-180).
\<close>

definition tool_message :: "pystr \<Rightarrow> 'b message" where
  "tool_message tn =
     \<lparr>role = ascii ''tool'', content = Text (tool_exec_prefix @ tn), tool_name = Some tn\<rparr>"

text \<open>
  \<^verbatim>\<open>st.session_state.messages.append(m)\<close>: the list's own \<^verbatim>\<open>append\<close>. The source has no
  other way of adding a message and puts no check in front of it.
\<close>

definition messages_append :: "'b session_state \<Rightarrow> 'b message \<Rightarrow> 'b session_state" where
  "messages_append st m = st\<lparr>messages := messages st @ [m]\<rparr>"


subsection \<open>Raw events of the agent\<close>

text \<open>
  A requested tool invocation is a dict of which the source reads the key \<^verbatim>\<open>'name'\<close>.
\<close>

record tool_call =
  name :: pystr
  args :: pystr

text \<open>
  A message of the agent framework, as far as the source reads it: \<^verbatim>\<open>.content\<close> and
  \<^verbatim>\<open>.tool_calls\<close>. (The source reads \<^verbatim>\<open>.tool_calls\<close> only under the node \<^verbatim>\<open>"agent"\<close>.)
\<close>

record 'b lc_message =
  msg_content :: "'b content"
  tool_calls :: "tool_call list"

text \<open>
  A raw event is a dict from node names to values, iterated by \<^verbatim>\<open>event.items()\<close> in
  insertion order: a list of pairs. Of a value the source reads only the key
  \<^verbatim>\<open>"messages"\<close>: \<open>None\<close> when the key is absent, otherwise the list stored under it.
\<close>

type_synonym 'b node_value = "'b lc_message list option"

type_synonym 'b raw_event = "(pystr \<times> 'b node_value) list"

text \<open>
  What \<^verbatim>\<open>agent_executor.stream(...)\<close> does when it is iterated: it yields finitely many
  events and then either is exhausted or raises an \<^verbatim>\<open>Exception\<close>, of which the source
  reads \<^verbatim>\<open>str(e)\<close>.
\<close>

datatype stream_end = Exhausted | Raised pystr

record 'b agent_stream =
  events :: "'b raw_event list"
  ending :: stream_end

text \<open>
  The stream that \<^verbatim>\<open>agent_executor.stream({"messages": messages}, config=config)\<close>
  returns depends on the executor, the user input (the second of the two messages; the
  first is the constant \<^verbatim>\<open>SYSTEM_PROMPT\<close>) and the thread identifier in \<open>config\<close>: an
  executor is a function of the latter two.
\<close>

type_synonym 'b agent_executor = "pystr \<Rightarrow> pystr \<Rightarrow> 'b agent_stream"

subsection \<open>Adapted events\<close>

text \<open>
  The dicts that \<^verbatim>\<open>stream_agent_response\<close> yields, one constructor for each value of
  \<^verbatim>\<open>"type"\<close>, with the other keys as arguments.
\<close>

datatype 'b adapted_event =
    ToolCall pystr
  | ToolResult nat
  | Answer "'b content"
  | Final "'b content" "'b message list"
  | Error pystr

section \<open>The event adapter: \<^verbatim>\<open>stream_agent_response\<close>\<close>

text \<open>\<^verbatim>\<open>str(IndexError)\<close> of \<^verbatim>\<open>value["messages"][-1]\<close> on an empty list.\<close>

definition index_error :: pystr where
  "index_error = ascii ''list index out of range''"

text \<open>
  The body of the inner loop (lines 113-136) for one item \<open>(node_name, value)\<close>, with the
  two local variables \<open>final_answer\<close> and \<open>tool_calls_info\<close> passed in and out. The result
  is \<open>Inl\<close> the description of the exception raised, or \<open>Inr\<close> the events yielded and the
  new values of the two variables.
\<close>

fun handle_item ::
  "('b list \<Rightarrow> pystr) \<Rightarrow> pystr \<times> 'b node_value \<Rightarrow> 'b content \<Rightarrow> 'b message list
     \<Rightarrow> pystr + ('b adapted_event list \<times> 'b content \<times> 'b message list)" where
  "handle_item py_repr (node_name, None) final_answer tool_calls_info =
     Inr ([], final_answer, tool_calls_info)"
| "handle_item py_repr (node_name, Some []) final_answer tool_calls_info =
     Inl index_error"
| "handle_item py_repr (node_name, Some (m # ms)) final_answer tool_calls_info =
     (let last_message = last (m # ms) in
      if node_name = ascii ''agent'' then
        (case tool_calls last_message of
           tc # _ \<Rightarrow>
             Inr ([ToolCall (name tc)], final_answer,
                  tool_calls_info @ [tool_message (name tc)])
         | [] \<Rightarrow>
             if truthy (msg_content last_message)
             then Inr ([Answer (msg_content last_message)], msg_content last_message,
                       tool_calls_info)
             else Inr ([], final_answer, tool_calls_info))
      else if node_name = ascii ''tools'' then
        Inr ([ToolResult (length (py_str py_repr (msg_content last_message)))],
             final_answer, tool_calls_info)
      else Inr ([], final_answer, tool_calls_info))"

text \<open>
  \<^verbatim>\<open>for node_name, value in event.items()\<close>: the events yielded so far, and \<open>Inl\<close> the
  exception that ended the loop or \<open>Inr\<close> the two variables after it.
\<close>

fun items_loop ::
  "('b list \<Rightarrow> pystr) \<Rightarrow> 'b raw_event \<Rightarrow> 'b content \<Rightarrow> 'b message list
     \<Rightarrow> 'b adapted_event list \<times> (pystr + 'b content \<times> 'b message list)" where
  "items_loop py_repr [] final_answer tool_calls_info =
     ([], Inr (final_answer, tool_calls_info))"
| "items_loop py_repr (item # rest) final_answer tool_calls_info =
     (case handle_item py_repr item final_answer tool_calls_info of
        Inl e \<Rightarrow> ([], Inl e)
      | Inr (out, final_answer', tool_calls_info') \<Rightarrow>
          (case items_loop py_repr rest final_answer' tool_calls_info' of
             (out', r) \<Rightarrow> (out @ out', r)))"

text \<open>\<^verbatim>\<open>for event in agent_executor.stream(...)\<close>, over the events the stream yields.\<close>

fun events_loop ::
  "('b list \<Rightarrow> pystr) \<Rightarrow> 'b raw_event list \<Rightarrow> 'b content \<Rightarrow> 'b message list
     \<Rightarrow> 'b adapted_event list \<times> (pystr + 'b content \<times> 'b message list)" where
  "events_loop py_repr [] final_answer tool_calls_info =
     ([], Inr (final_answer, tool_calls_info))"
| "events_loop py_repr (event # rest) final_answer tool_calls_info =
     (case items_loop py_repr event final_answer tool_calls_info of
        (out, Inl e) \<Rightarrow> (out, Inl e)
      | (out, Inr (final_answer', tool_calls_info')) \<Rightarrow>
          (case events_loop py_repr rest final_answer' tool_calls_info' of
             (out', r) \<Rightarrow> (out @ out', r)))"

text \<open>
  The generator as the list of the events it yields, in order. The \<^verbatim>\<open>try\<close> block holds
  the loop and the closing \<^verbatim>\<open>if final_answer\<close>; \<^verbatim>\<open>except Exception as e\<close> yields the error
  event, whether the exception came out of the loop body or out of the stream.
\<close>

definition stream_agent_response ::
  "('b list \<Rightarrow> pystr) \<Rightarrow> 'b agent_executor \<Rightarrow> pystr \<Rightarrow> pystr \<Rightarrow> 'b adapted_event list" where
  "stream_agent_response py_repr agent_executor user_input thread_id' =
     (let stream = agent_executor user_input thread_id' in
      case events_loop py_repr (events stream) (Text []) [] of
        (out, Inl e) \<Rightarrow> out @ [Error e]
      | (out, Inr (final_answer, tool_calls_info)) \<Rightarrow>
          (case ending stream of
             Raised e \<Rightarrow> out @ [Error e]
           | Exhausted \<Rightarrow>
               if truthy final_answer then out @ [Final final_answer tool_calls_info]
               else out))"

section \<open>Replaying the transcript: \<^verbatim>\<open>display_chat_messages\<close>\<close>

text \<open>
  What one pass of the loop puts on the page: a \<^verbatim>\<open>st.chat_message(who)\<close> container
  holding either \<^verbatim>\<open>st.write(content)\<close> or \<^verbatim>\<open>st.caption(text)\<close>.
\<close>

datatype 'b element = Write "'b content" | Caption pystr

datatype 'b chat_entry = ChatMessage pystr "'b element"

definition display_message :: "'b message \<Rightarrow> 'b chat_entry list" where
  "display_message message =
     (if role message = ascii ''user'' then
        [ChatMessage (ascii ''user'') (Write (content message))]
      else if role message = ascii ''assistant'' then
        [ChatMessage (ascii ''assistant'') (Write (content message))]
      else if role message = ascii ''tool'' then
        [ChatMessage (ascii ''assistant'')
           (Caption ((case tool_name message of None \<Rightarrow> default_tool_name | Some tn \<Rightarrow> tn)
                     @ running_suffix))]
      else [])"

definition display_chat_messages :: "'b session_state \<Rightarrow> 'b chat_entry list" where
  "display_chat_messages st = concat (map display_message (messages st))"

section \<open>One response cycle: \<^verbatim>\<open>process_user_input\<close>\<close>

text \<open>
  The loop over the adapted events (lines 170-198) with its two local variables
  \<open>final_answer\<close> and \<open>tool_calls\<close>. \<open>None\<close> is the \<^verbatim>\<open>return\<close> of the error branch, which
  leaves the function; \<open>Some\<close> holds the variables when the loop ends. The writes to the
  two placeholders change the page only and are left out.
\<close>

fun consume_events ::
  "'b adapted_event list \<Rightarrow> 'b content \<Rightarrow> 'b message list
     \<Rightarrow> ('b content \<times> 'b message list) option" where
  "consume_events [] final_answer tool_calls' = Some (final_answer, tool_calls')"
| "consume_events (ToolCall tn # rest) final_answer tool_calls' =
     consume_events rest final_answer (tool_calls' @ [tool_message tn])"
| "consume_events (ToolResult n # rest) final_answer tool_calls' =
     consume_events rest final_answer tool_calls'"
| "consume_events (Answer c # rest) final_answer tool_calls' =
     consume_events rest c tool_calls'"
| "consume_events (Final c tci # rest) final_answer tool_calls' =
     consume_events rest c tool_calls'"
| "consume_events (Error msg # rest) final_answer tool_calls' = None"

text \<open>
  The session state after \<^verbatim>\<open>process_user_input(user_input, agent_executor)\<close>: the user's
  message is appended first; after the loop, \<^verbatim>\<open>if final_answer\<close> appends the assistant
  message and then each collected tool notice. (The outer \<^verbatim>\<open>except Exception\<close> guards the
  calls of the page toolkit, which are taken not to raise.)
\<close>

definition process_user_input ::
  "('b list \<Rightarrow> pystr) \<Rightarrow> pystr \<Rightarrow> 'b agent_executor \<Rightarrow> 'b session_state \<Rightarrow> 'b session_state" where
  "process_user_input py_repr user_input agent_executor st =
     (let st1 = messages_append st (user_message user_input) in
      case consume_events
             (stream_agent_response py_repr agent_executor user_input (thread_id st1))
             (Text []) [] of
        None \<Rightarrow> st1
      | Some (final_answer, tool_calls') \<Rightarrow>
          if truthy final_answer
          then foldl messages_append
                 (messages_append st1 (assistant_message final_answer)) tool_calls'
          else st1)"

section \<open>Vocabulary of the properties\<close>

subsection \<open>Reading a list of adapted events\<close>

fun is_tool_call :: "'b adapted_event \<Rightarrow> bool" where
  "is_tool_call (ToolCall tn) = True"
| "is_tool_call _ = False"

fun is_final :: "'b adapted_event \<Rightarrow> bool" where
  "is_final (Final c tci) = True"
| "is_final _ = False"

fun is_error :: "'b adapted_event \<Rightarrow> bool" where
  "is_error (Error msg) = True"
| "is_error _ = False"

text \<open>The tool names of the \<open>ToolCall\<close> events of a list, in order.\<close>

fun tool_call_names :: "'b adapted_event list \<Rightarrow> pystr list" where
  "tool_call_names [] = []"
| "tool_call_names (ToolCall tn # es) = tn # tool_call_names es"
| "tool_call_names (e # es) = tool_call_names es"

text \<open>The contents of the \<open>Answer\<close> events of a list, in order.\<close>

fun answers :: "'b adapted_event list \<Rightarrow> 'b content list" where
  "answers [] = []"
| "answers (Answer c # es) = c # answers es"
| "answers (e # es) = answers es"

text \<open>The length fields of the \<open>ToolResult\<close> events of a list, in order.\<close>

fun tool_result_lengths :: "'b adapted_event list \<Rightarrow> nat list" where
  "tool_result_lengths [] = []"
| "tool_result_lengths (ToolResult n # es) = n # tool_result_lengths es"
| "tool_result_lengths (e # es) = tool_result_lengths es"

subsection \<open>What the specification says about a raw event\<close>

text \<open>
  These follow the words of the specification, not the source. An item \<open>(node_name, value)\<close>
  of a raw event requests a tool when it belongs to the reasoning stage, carries a message
  list, and the last message has a non-empty list of invocations: the request is the name
  of the first one.
\<close>

definition item_tool_request :: "pystr \<times> 'b node_value \<Rightarrow> pystr option" where
  "item_tool_request item =
     (case item of
        (node_name, Some ms) \<Rightarrow>
          if node_name = ascii ''agent'' \<and> ms \<noteq> []
          then (case tool_calls (last ms) of [] \<Rightarrow> None | tc # _ \<Rightarrow> Some (name tc))
          else None
      | (node_name, None) \<Rightarrow> None)"

text \<open>
  The same for a whole raw event, a dict: its reasoning stage is the value stored under
  the key \<^verbatim>\<open>"agent"\<close>.
\<close>

definition requested_tool :: "'b raw_event \<Rightarrow> pystr option" where
  "requested_tool ev =
     (case map_of ev (ascii ''agent'') of
        Some (Some ms) \<Rightarrow>
          if ms = [] then None
          else (case tool_calls (last ms) of [] \<Rightarrow> None | tc # _ \<Rightarrow> Some (name tc))
      | _ \<Rightarrow> None)"

text \<open>
  An item is an answer when it belongs to the reasoning stage and its last message has
  no invocations and a non-empty content.
\<close>

definition item_answer :: "pystr \<times> 'b node_value \<Rightarrow> 'b content option" where
  "item_answer item =
     (case item of
        (node_name, Some ms) \<Rightarrow>
          if node_name = ascii ''agent'' \<and> ms \<noteq> [] \<and> tool_calls (last ms) = []
             \<and> truthy (msg_content (last ms))
          then Some (msg_content (last ms)) else None
      | (node_name, None) \<Rightarrow> None)"

text \<open>
  An item of the tool-execution stage with a message list has an output length: the
  length of the stringified content of its last message.
\<close>

definition item_output_length ::
  "('b list \<Rightarrow> pystr) \<Rightarrow> pystr \<times> 'b node_value \<Rightarrow> nat option" where
  "item_output_length py_repr item =
     (case item of
        (node_name, Some ms) \<Rightarrow>
          if node_name = ascii ''tools'' \<and> ms \<noteq> []
          then Some (length (py_str py_repr (msg_content (last ms)))) else None
      | (node_name, None) \<Rightarrow> None)"

text \<open>
  The input contract of the adapter (specification, 4.1): a message list that is present
  is not empty. On an empty list \<^verbatim>\<open>value["messages"][-1]\<close> raises.
\<close>

definition item_ok :: "pystr \<times> 'b node_value \<Rightarrow> bool" where
  "item_ok item \<longleftrightarrow> snd item \<noteq> Some []"

definition nonempty_message_lists :: "'b agent_stream \<Rightarrow> bool" where
  "nonempty_message_lists s \<longleftrightarrow> list_all (list_all item_ok) (events s)"

text \<open>A raw event is a dict: no key occurs twice among its items.\<close>

definition distinct_keys :: "'b agent_stream \<Rightarrow> bool" where
  "distinct_keys s \<longleftrightarrow> list_all (\<lambda>ev. distinct (map fst ev)) (events s)"

subsection \<open>Auxiliary notions of the proofs\<close>

text \<open>
  The events that the loop body yields for an item do not depend on the two local
  variables: they are read off a run from the initial ones.
\<close>

definition item_events ::
  "('b list \<Rightarrow> pystr) \<Rightarrow> pystr \<times> 'b node_value \<Rightarrow> 'b adapted_event list" where
  "item_events py_repr item =
     (case handle_item py_repr item (Text []) [] of
        Inl e \<Rightarrow> []
      | Inr (out, fa, tci) \<Rightarrow> out)"

definition body_events ::
  "('b list \<Rightarrow> pystr) \<Rightarrow> 'b raw_event list \<Rightarrow> 'b adapted_event list" where
  "body_events py_repr evs = concat (map (item_events py_repr) (concat evs))"

text \<open>
  The loop invariant: the events yielded so far hold no final and no error event, every
  answer among them is true, and the two variables are the last answer and the log of the
  tool calls among them.
\<close>

definition run_inv ::
  "'b adapted_event list \<Rightarrow> 'b content \<Rightarrow> 'b message list
     \<Rightarrow> (pystr + 'b content \<times> 'b message list) \<Rightarrow> bool" where
  "run_inv out fa tci r \<longleftrightarrow>
     (\<forall>e\<in>set out. \<not> is_final e \<and> \<not> is_error e) \<and>
     (\<forall>c\<in>set (answers out). truthy c) \<and>
     (case r of
        Inl e \<Rightarrow> True
      | Inr (fa', tci') \<Rightarrow>
          tci' = tci @ map tool_message (tool_call_names out) \<and>
          fa' = last (fa # answers out))"

text \<open>What follows the loop: the error event, the final event, or nothing.\<close>

definition closing :: "stream_end \<Rightarrow> 'b adapted_event list \<Rightarrow> 'b adapted_event list" where
  "closing e body =
     (case e of
        Raised msg \<Rightarrow> [Error msg]
      | Exhausted \<Rightarrow>
          if answers body = [] then []
          else [Final (last (answers body)) (map tool_message (tool_call_names body))])"

subsection \<open>Example streams\<close>

text \<open>
  The scenario of the specification (section 8), with a second invocation requested in
  the first event: a tool request, a tool output \<^verbatim>\<open>"xyz"\<close>, an answer.
\<close>

definition lookup_then_answer :: "unit agent_stream" where
  "lookup_then_answer =
     \<lparr>events =
        [[(ascii ''agent'',
           Some [\<lparr>msg_content = Text [],
                  tool_calls = [\<lparr>name = ascii ''lookup'', args = []\<rparr>,
                                \<lparr>name = ascii ''search'', args = []\<rparr>]\<rparr>])],
         [(ascii ''tools'',
           Some [\<lparr>msg_content = Text (ascii ''xyz''), tool_calls = []\<rparr>])],
         [(ascii ''agent'',
           Some [\<lparr>msg_content = Text (ascii ''G06F''), tool_calls = []\<rparr>])]],
      ending = Exhausted\<rparr>"

text \<open>A stream that raises after its first event.\<close>

definition lookup_then_raise :: "unit agent_stream" where
  "lookup_then_raise =
     \<lparr>events =
        [[(ascii ''agent'',
           Some [\<lparr>msg_content = Text [],
                  tool_calls = [\<lparr>name = ascii ''lookup'', args = []\<rparr>]\<rparr>])]],
      ending = Raised (ascii ''timeout'')\<rparr>"

subsection \<open>Hiding the tool output\<close>

text \<open>
  \<open>redact\<close> replaces the content of every message of the tool-execution stage by a text
  of zeros as long as the stringified content: what is left of a tool output when only
  its length is kept.
\<close>

definition redact_item :: "('b list \<Rightarrow> pystr) \<Rightarrow> pystr \<times> 'b node_value \<Rightarrow> pystr \<times> 'b node_value" where
  "redact_item py_repr item =
     (case item of
        (node_name, value) \<Rightarrow>
          if node_name = ascii ''tools''
          then (node_name,
                map_option
                  (map (\<lambda>m. m\<lparr>msg_content :=
                                  Text (replicate (length (py_str py_repr (msg_content m))) 0)\<rparr>))
                  value)
          else (node_name, value))"

definition redact :: "('b list \<Rightarrow> pystr) \<Rightarrow> 'b agent_stream \<Rightarrow> 'b agent_stream" where
  "redact py_repr s = s\<lparr>events := map (map (redact_item py_repr)) (events s)\<rparr>"

subsection \<open>Faults while the stream is consumed\<close>

text \<open>
  Two faults can end the loop of the adapter: the loop body raises on an item whose message
  list is empty, or the stream itself raises, after its events. \<open>fault_of\<close> is the
  description of the first fault met when the stream is consumed, if there is one: a fault
  of the loop body comes before the end of the stream.
\<close>

definition fault_of :: "'b agent_stream \<Rightarrow> pystr option" where
  "fault_of s =
     (if nonempty_message_lists s
      then (case ending s of Exhausted \<Rightarrow> None | Raised msg \<Rightarrow> Some msg)
      else Some index_error)"

text \<open>
  The raw events consumed before a fault of the loop body: the events before the one that
  holds the first empty message list, and of that one the items before that list. All the
  events are consumed when no message list is empty.
\<close>

fun consumed :: "'b raw_event list \<Rightarrow> 'b raw_event list" where
  "consumed [] = []"
| "consumed (event # rest) =
     (if list_all item_ok event then event # consumed rest
      else [takeWhile item_ok event])"

text \<open>The stream that yields the consumed raw events and then ends without a fault.\<close>

definition before_fault :: "'b agent_stream \<Rightarrow> 'b agent_stream" where
  "before_fault s = \<lparr>events = consumed (events s), ending = Exhausted\<rparr>"

text \<open>What the adapter emits on that stream, the closing final event left out.\<close>

definition emitted_before_fault ::
  "('b list \<Rightarrow> pystr) \<Rightarrow> 'b agent_stream \<Rightarrow> 'b adapted_event list" where
  "emitted_before_fault py_repr s =
     filter (\<lambda>x. \<not> is_final x)
       (stream_agent_response py_repr (\<lambda>ui t. before_fault s) [] [])"

text \<open>
  An answer, then a tool-execution event whose message list is empty, then a second
  answer; and the same stream with one more event, raising at its end.
\<close>

definition answer_then_empty_list :: "unit agent_stream" where
  "answer_then_empty_list =
     \<lparr>events =
        [[(ascii ''agent'',
           Some [\<lparr>msg_content = Text (ascii ''A''), tool_calls = []\<rparr>])],
         [(ascii ''tools'', Some [])],
         [(ascii ''agent'',
           Some [\<lparr>msg_content = Text (ascii ''B''), tool_calls = []\<rparr>])]],
      ending = Exhausted\<rparr>"

definition empty_list_then_more :: "unit agent_stream" where
  "empty_list_then_more =
     answer_then_empty_list
       \<lparr>events := events answer_then_empty_list
                    @ [[(ascii ''agent'',
                         Some [\<lparr>msg_content = Text (ascii ''C''), tool_calls = []\<rparr>])]],
        ending := Raised (ascii ''timeout'')\<rparr>"

text \<open>An executor whose stream depends on the thread identifier it is given.\<close>

definition selective_executor :: "unit agent_executor" where
  "selective_executor user_input tid =
     (if tid = ascii ''t2'' then empty_list_then_more else lookup_then_raise)"

subsection \<open>Reading the session\<close>

text \<open>The three roles that \<^verbatim>\<open>display_chat_messages\<close> knows.\<close>

definition recognized :: "'b message \<Rightarrow> bool" where
  "recognized m \<longleftrightarrow>
     role m = ascii ''user'' \<or> role m = ascii ''assistant'' \<or> role m = ascii ''tool''"

text \<open>
  The entry that the specification gives a stored message (section 4.3): a message of the
  tool role is a caption in the assistant's container that names the tool, any other
  message is its content written in the container of its role.
\<close>

definition rendered :: "'b message \<Rightarrow> 'b chat_entry" where
  "rendered m =
     (if role m = ascii ''tool''
      then ChatMessage (ascii ''assistant'')
             (Caption ((case tool_name m of None \<Rightarrow> default_tool_name | Some tn \<Rightarrow> tn)
                       @ running_suffix))
      else ChatMessage (role m) (Write (content m)))"

text \<open>The contents that a list of adapted events writes to the answer placeholder.\<close>

fun shown :: "'b adapted_event list \<Rightarrow> 'b content list" where
  "shown [] = []"
| "shown (Answer c # es) = c # shown es"
| "shown (Final c tci # es) = c # shown es"
| "shown (e # es) = shown es"

text \<open>A stream that requests a tool, receives its output and ends with no answer.\<close>

definition lookup_without_answer :: "unit agent_stream" where
  "lookup_without_answer =
     \<lparr>events =
        [[(ascii ''agent'',
           Some [\<lparr>msg_content = Text [],
                  tool_calls = [\<lparr>name = ascii ''lookup'', args = []\<rparr>]\<rparr>])],
         [(ascii ''tools'',
           Some [\<lparr>msg_content = Text (ascii ''xyz''), tool_calls = []\<rparr>])]],
      ending = Exhausted\<rparr>"

text \<open>Example sessions, a message with a fourth role, and a generated identifier.\<close>

definition session0 :: "unit session_state" where
  "session0 = \<lparr>messages = [user_message (ascii ''hi'')], thread_id = ascii ''t1''\<rparr>"

definition transcript :: "unit session_state" where
  "transcript =
     \<lparr>messages = [user_message (ascii ''q''), assistant_message (Text (ascii ''a'')),
                  tool_message (ascii ''lookup'')],
      thread_id = ascii ''t1''\<rparr>"



section \<open>Lemmas on the adapter\<close>

lemma tool_call_names_append: "tool_call_names (xs @ ys) = tool_call_names xs @ tool_call_names ys"
  by (induction xs rule: tool_call_names.induct) simp_all

lemma answers_append: "answers (xs @ ys) = answers xs @ answers ys"
  by (induction xs rule: answers.induct) simp_all

lemma handle_item_Inr:
  assumes "handle_item py_repr item fa tci = Inr (out, fa', tci')"
  shows "out = item_events py_repr item"
    and "tci' = tci @ map tool_message (tool_call_names out)"
    and "fa' = last (fa # answers out)"
    and "\<forall>c\<in>set (answers out). truthy c"
    and "\<forall>e\<in>set out. \<not> is_final e \<and> \<not> is_error e"
  using assms
  by (cases item; cases "snd item"; cases "the (snd item)";
      auto simp: item_events_def Let_def split: if_splits list.splits)+

lemma handle_item_Inl:
  "handle_item py_repr item fa tci = Inl e \<longleftrightarrow> snd item = Some [] \<and> e = index_error"
  by (cases item; cases "snd item"; cases "the (snd item)";
      auto simp: Let_def split: if_splits list.splits)

lemma run_inv_Nil: "run_inv [] fa tci (Inr (fa, tci))"
  by (simp add: run_inv_def)

lemma run_inv_Inl: "run_inv [] fa tci (Inl e)"
  by (simp add: run_inv_def)

lemma last_chain: "last (last (x # xs) # ys) = last (x # xs @ ys)"
  by (cases ys) simp_all

lemma run_inv_append:
  assumes "run_inv out1 fa tci (Inr (fa1, tci1))" and "run_inv out2 fa1 tci1 r"
  shows "run_inv (out1 @ out2) fa tci r"
  using assms
  by (cases r) (auto simp: run_inv_def tool_call_names_append answers_append last_chain
                     simp del: last.simps)

lemma handle_item_inv:
  "handle_item py_repr item fa tci = Inr (out, fa', tci') \<Longrightarrow> run_inv out fa tci (Inr (fa', tci'))"
  using handle_item_Inr [of py_repr item fa tci out fa' tci']
  by (simp add: run_inv_def)

lemma items_loop_inv:
  "items_loop py_repr items fa tci = (out, r) \<Longrightarrow> run_inv out fa tci r"
proof (induction items arbitrary: fa tci out r)
  case Nil
  then show ?case by (auto simp: run_inv_Nil)
next
  case (Cons item rest)
  show ?case
  proof (cases "handle_item py_repr item fa tci")
    case (Inl e)
    with Cons.prems show ?thesis by (auto simp: run_inv_Inl)
  next
    case (Inr res)
    obtain o1 fa1 tci1 where res: "res = (o1, fa1, tci1)" by (cases res) auto
    obtain o2 r2 where rest: "items_loop py_repr rest fa1 tci1 = (o2, r2)" by fastforce
    from Cons.prems Inr res rest have eq: "out = o1 @ o2" "r = r2" by auto
    have "run_inv o1 fa tci (Inr (fa1, tci1))"
      using Inr res by (simp add: handle_item_inv)
    moreover have "run_inv o2 fa1 tci1 r2" using rest by (rule Cons.IH)
    ultimately show ?thesis unfolding eq by (rule run_inv_append)
  qed
qed

lemma events_loop_inv:
  "events_loop py_repr evs fa tci = (out, r) \<Longrightarrow> run_inv out fa tci r"
proof (induction evs arbitrary: fa tci out r)
  case Nil
  then show ?case by (auto simp: run_inv_Nil)
next
  case (Cons ev rest)
  obtain o1 r1 where first: "items_loop py_repr ev fa tci = (o1, r1)" by fastforce
  have inv1: "run_inv o1 fa tci r1" using first by (rule items_loop_inv)
  show ?case
  proof (cases r1)
    case (Inl e)
    with Cons.prems first inv1 show ?thesis by auto
  next
    case (Inr st)
    obtain fa1 tci1 where st: "st = (fa1, tci1)" by (cases st) auto
    obtain o2 r2 where rest: "events_loop py_repr rest fa1 tci1 = (o2, r2)" by fastforce
    from Cons.prems first Inr st rest have eq: "out = o1 @ o2" "r = r2" by auto
    have "run_inv o2 fa1 tci1 r2" using rest by (rule Cons.IH)
    with inv1 Inr st show ?thesis unfolding eq by (auto intro: run_inv_append)
  qed
qed

lemma handle_item_ok:
  "item_ok item \<Longrightarrow> \<exists>fa' tci'. handle_item py_repr item fa tci = Inr (item_events py_repr item, fa', tci')"
proof -
  assume ok: "item_ok item"
  show ?thesis
  proof (cases "handle_item py_repr item fa tci")
    case (Inl e)
    with ok show ?thesis by (simp add: handle_item_Inl item_ok_def)
  next
    case (Inr res)
    obtain o1 fa1 tci1 where res: "res = (o1, fa1, tci1)" by (cases res) auto
    with Inr handle_item_Inr(1) [of py_repr item fa tci o1 fa1 tci1] show ?thesis by simp
  qed
qed

lemma items_loop_ok:
  "\<forall>item\<in>set items. item_ok item \<Longrightarrow>
   \<exists>fa' tci'. items_loop py_repr items fa tci =
     (concat (map (item_events py_repr) items), Inr (fa', tci'))"
proof (induction items arbitrary: fa tci)
  case Nil
  then show ?case by simp
next
  case (Cons item rest)
  from Cons.prems obtain fa1 tci1 where
    h: "handle_item py_repr item fa tci = Inr (item_events py_repr item, fa1, tci1)"
    using handle_item_ok [of item py_repr fa tci] by auto
  from Cons.prems Cons.IH [of fa1 tci1] obtain fa2 tci2 where
    "items_loop py_repr rest fa1 tci1 = (concat (map (item_events py_repr) rest), Inr (fa2, tci2))"
    by auto
  with h show ?case by simp
qed

lemma events_loop_ok:
  "\<forall>ev\<in>set evs. \<forall>item\<in>set ev. item_ok item \<Longrightarrow>
   \<exists>fa' tci'. events_loop py_repr evs fa tci =
     (concat (map (item_events py_repr) (concat evs)), Inr (fa', tci'))"
proof (induction evs arbitrary: fa tci)
  case Nil
  then show ?case by simp
next
  case (Cons ev rest)
  from Cons.prems obtain fa1 tci1 where
    h: "items_loop py_repr ev fa tci = (concat (map (item_events py_repr) ev), Inr (fa1, tci1))"
    using items_loop_ok [of ev py_repr fa tci] by auto
  from Cons.prems Cons.IH [of fa1 tci1] obtain fa2 tci2 where
    "events_loop py_repr rest fa1 tci1 =
       (concat (map (item_events py_repr) (concat rest)), Inr (fa2, tci2))"
    by auto
  with h show ?case by simp
qed

lemma tool_result_lengths_append:
  "tool_result_lengths (xs @ ys) = tool_result_lengths xs @ tool_result_lengths ys"
  by (induction xs rule: tool_result_lengths.induct) simp_all

lemma truthy_last_answers:
  "\<forall>c\<in>set as. truthy c \<Longrightarrow> truthy (last (Text [] # as)) \<longleftrightarrow> as \<noteq> []"
  by (cases as rule: rev_cases) auto

lemma stream_agent_response_ok:
  assumes wf: "\<forall>ev\<in>set (events (ex ui tid)). \<forall>item\<in>set ev. item_ok item"
  shows "stream_agent_response py_repr ex ui tid =
           body_events py_repr (events (ex ui tid))
           @ closing (ending (ex ui tid)) (body_events py_repr (events (ex ui tid)))"
proof -
  let ?s = "ex ui tid"
  let ?body = "body_events py_repr (events ?s)"
  from events_loop_ok [OF wf, of py_repr "Text []" "[]"] obtain fa tci where
    run: "events_loop py_repr (events ?s) (Text []) [] = (?body, Inr (fa, tci))"
    by (auto simp: body_events_def)
  from events_loop_inv [OF run] have
    tci: "tci = map tool_message (tool_call_names ?body)" and
    fa: "fa = last (Text [] # answers ?body)" and
    tr: "\<forall>c\<in>set (answers ?body). truthy c"
    by (simp_all add: run_inv_def)
  from tr have t: "truthy fa \<longleftrightarrow> answers ?body \<noteq> []"
    unfolding fa by (rule truthy_last_answers)
  have fa': "answers ?body \<noteq> [] \<Longrightarrow> fa = last (answers ?body)"
    unfolding fa by simp
  show ?thesis
    using run t fa' tci
    by (cases "ending ?s") (auto simp: stream_agent_response_def closing_def Let_def)
qed

lemma stream_agent_response_shape:
  "\<exists>body tail. stream_agent_response py_repr ex ui tid = body @ tail \<and>
     (\<forall>e\<in>set body. \<not> is_final e \<and> \<not> is_error e) \<and>
     (\<forall>c\<in>set (answers body). truthy c) \<and>
     ((\<exists>msg. tail = [Error msg]) \<or> tail = closing Exhausted body)"
proof -
  let ?s = "ex ui tid"
  obtain out r where run: "events_loop py_repr (events ?s) (Text []) [] = (out, r)"
    by fastforce
  from events_loop_inv [OF run] have inv: "run_inv out (Text []) [] r" .
  then have clean: "\<forall>e\<in>set out. \<not> is_final e \<and> \<not> is_error e"
    and tr: "\<forall>c\<in>set (answers out). truthy c"
    by (simp_all add: run_inv_def)
  show ?thesis
  proof (cases r)
    case (Inl e)
    with run have "stream_agent_response py_repr ex ui tid = out @ [Error e]"
      by (simp add: stream_agent_response_def)
    with clean tr show ?thesis by blast
  next
    case (Inr st)
    obtain fa tci where st: "st = (fa, tci)" by (cases st) auto
    from inv Inr st have tci: "tci = map tool_message (tool_call_names out)"
      and fa: "fa = last (Text [] # answers out)"
      by (simp_all add: run_inv_def)
    from tr have t: "truthy fa \<longleftrightarrow> answers out \<noteq> []"
      unfolding fa by (rule truthy_last_answers)
    have fa': "answers out \<noteq> [] \<Longrightarrow> fa = last (answers out)"
      unfolding fa by simp
    show ?thesis
    proof (cases "ending ?s")
      case Exhausted
      with run Inr st t fa' tci
      have "stream_agent_response py_repr ex ui tid = out @ closing Exhausted out"
        by (auto simp: stream_agent_response_def closing_def Let_def)
      with clean tr show ?thesis by blast
    next
      case (Raised msg)
      with run Inr st
      have "stream_agent_response py_repr ex ui tid = out @ [Error msg]"
        by (simp add: stream_agent_response_def)
      with clean tr show ?thesis by blast
    qed
  qed
qed

lemma map_filter_app: "List.map_filter f (xs @ ys) = List.map_filter f xs @ List.map_filter f ys"
  by (induction xs) (simp_all split: option.splits)

lemma map_filter_concat:
  "List.map_filter f (concat xss) = concat (map (List.map_filter f) xss)"
  by (induction xss) (simp_all add: map_filter_app)

lemma item_events_tool_calls:
  "tool_call_names (item_events py_repr item) =
     (case item_tool_request item of None \<Rightarrow> [] | Some tn \<Rightarrow> [tn])"
  by (cases item; cases "snd item"; cases "the (snd item)")
     (auto simp: item_events_def item_tool_request_def Let_def ascii_def split: list.splits)

lemma item_events_answers:
  "answers (item_events py_repr item) =
     (case item_answer item of None \<Rightarrow> [] | Some c \<Rightarrow> [c])"
  by (cases item; cases "snd item"; cases "the (snd item)")
     (auto simp: item_events_def item_answer_def Let_def ascii_def split: list.splits)

lemma item_events_tool_results:
  "tool_result_lengths (item_events py_repr item) =
     (case item_output_length py_repr item of None \<Rightarrow> [] | Some n \<Rightarrow> [n])"
  by (cases item; cases "snd item"; cases "the (snd item)")
     (auto simp: item_events_def item_output_length_def Let_def ascii_def split: list.splits)

lemma tool_call_names_items:
  "tool_call_names (concat (map (item_events py_repr) items)) = List.map_filter item_tool_request items"
  by (induction items) (simp_all add: tool_call_names_append item_events_tool_calls split: option.splits)

lemma answers_items:
  "answers (concat (map (item_events py_repr) items)) = List.map_filter item_answer items"
  by (induction items) (simp_all add: answers_append item_events_answers split: option.splits)

lemma tool_result_lengths_items:
  "tool_result_lengths (concat (map (item_events py_repr) items)) =
     List.map_filter (item_output_length py_repr) items"
  by (induction items)
     (simp_all add: tool_result_lengths_append item_events_tool_results split: option.splits)

lemma item_events_clean:
  "\<forall>e\<in>set (item_events py_repr item). \<not> is_final e \<and> \<not> is_error e"
  by (cases item; cases "snd item"; cases "the (snd item)")
     (auto simp: item_events_def Let_def split: list.splits)

lemma body_events_clean:
  "\<forall>e\<in>set (body_events py_repr evs). \<not> is_final e \<and> \<not> is_error e"
  using item_events_clean by (fastforce simp: body_events_def)

lemma no_agent_key:
  "ascii ''agent'' \<notin> fst ` set ev \<Longrightarrow> List.map_filter item_tool_request ev = []"
  by (induction ev) (auto simp: item_tool_request_def split: option.splits)

lemma requested_tool_items:
  "distinct (map fst ev) \<Longrightarrow>
   List.map_filter item_tool_request ev = (case requested_tool ev of None \<Rightarrow> [] | Some tn \<Rightarrow> [tn])"
proof (induction ev)
  case Nil
  then show ?case by (simp add: requested_tool_def)
next
  case (Cons item rest)
  obtain k v where item: "item = (k, v)" by (cases item) auto
  show ?case
  proof (cases "k = ascii ''agent''")
    case True
    with Cons.prems item have "ascii ''agent'' \<notin> fst ` set rest" by auto
    then have rest: "List.map_filter item_tool_request rest = []" by (rule no_agent_key)
    have "requested_tool (item # rest) = item_tool_request item"
      using True item
      by (cases v) (auto simp: requested_tool_def item_tool_request_def split: list.splits)
    with rest show ?thesis by (simp split: option.splits)
  next
    case False
    then have none: "item_tool_request item = None"
      using item by (cases v) (auto simp: item_tool_request_def)
    from False item have "requested_tool (item # rest) = requested_tool rest"
      by (simp add: requested_tool_def)
    with none Cons show ?thesis by simp
  qed
qed

lemma requested_tool_events:
  "\<forall>ev\<in>set evs. distinct (map fst ev) \<Longrightarrow>
   List.map_filter item_tool_request (concat evs) = List.map_filter requested_tool evs"
  by (induction evs) (auto simp: map_filter_app requested_tool_items split: option.splits)

lemma tool_call_names_body:
  "tool_call_names (body @ closing e body) = tool_call_names body"
  by (cases e) (simp_all add: tool_call_names_append closing_def)

lemma clean_filter:
  assumes "\<forall>e\<in>set body. \<not> is_final e \<and> \<not> is_error e"
  shows "filter is_final body = []" and "filter (\<lambda>e. \<not> is_final e) body = body"
    and "filter is_error body = []"
  using assms by (induction body) auto

lemma answers_body: "answers (body @ closing e body) = answers body"
  by (cases e) (simp_all add: answers_append closing_def)

lemma tool_result_lengths_body:
  "tool_result_lengths (body @ closing e body) = tool_result_lengths body"
  by (cases e) (simp_all add: tool_result_lengths_append closing_def)

lemma wf_items:
  "nonempty_message_lists s \<Longrightarrow> \<forall>ev\<in>set (events s). \<forall>item\<in>set ev. item_ok item"
  by (simp add: nonempty_message_lists_def list_all_iff)

lemma answers_body_events:
  "answers (body_events py_repr evs) = List.map_filter item_answer (concat evs)"
  by (simp add: body_events_def answers_items)

lemma handle_item_redact:
  "handle_item py_repr (redact_item py_repr item) fa tci = handle_item py_repr item fa tci"
proof (cases item)
  case (Pair k v)
  define f :: "'a lc_message \<Rightarrow> 'a lc_message" where
    "f = (\<lambda>m. m\<lparr>msg_content := Text (replicate (length (py_str py_repr (msg_content m))) 0)\<rparr>)"
  have len: "length (py_str py_repr (msg_content (f m))) = length (py_str py_repr (msg_content m))"
    for m by (simp add: f_def)
  show ?thesis
  proof (cases "k = ascii ''tools''")
    case False
    with Pair show ?thesis by (simp add: redact_item_def)
  next
    case True
    then have na: "k \<noteq> ascii ''agent''" by (simp add: ascii_def)
    from Pair True have red: "redact_item py_repr item = (k, map_option (map f) v)"
      by (simp add: redact_item_def f_def)
    show ?thesis
    proof (cases v)
      case None
      with Pair red show ?thesis by simp
    next
      case (Some ms)
      show ?thesis
      proof (cases ms)
        case Nil
        with Pair red Some show ?thesis by simp
      next
        case (Cons m ms')
        have lm: "last (f m # map f ms') = f (last (m # ms'))"
          using last_map [of "m # ms'" f] by simp
        from Pair Some Cons na True show ?thesis
          unfolding red by (simp add: Let_def lm len del: last.simps)
      qed
    qed
  qed
qed

lemma items_loop_redact:
  "items_loop py_repr (map (redact_item py_repr) items) fa tci = items_loop py_repr items fa tci"
  by (induction items arbitrary: fa tci) (simp_all add: handle_item_redact split: sum.splits prod.splits)

lemma events_loop_redact:
  "events_loop py_repr (map (map (redact_item py_repr)) evs) fa tci = events_loop py_repr evs fa tci"
  by (induction evs arbitrary: fa tci) (simp_all add: items_loop_redact split: sum.splits prod.splits)

section \<open>Lemmas on faults, the response cycle and the display\<close>

lemma items_loop_fault:
  "\<not> list_all item_ok items \<Longrightarrow>
   items_loop py_repr items fa tci =
     (concat (map (item_events py_repr) (takeWhile item_ok items)), Inl index_error)"
proof (induction items arbitrary: fa tci)
  case Nil
  then show ?case by simp
next
  case (Cons item rest)
  show ?case
  proof (cases "item_ok item")
    case True
    then obtain fa1 tci1 where
      h: "handle_item py_repr item fa tci = Inr (item_events py_repr item, fa1, tci1)"
      using handle_item_ok [of item py_repr fa tci] by auto
    from True Cons.prems have "\<not> list_all item_ok rest" by simp
    from Cons.IH [OF this, of fa1 tci1] h True show ?thesis by simp
  next
    case False
    then have "handle_item py_repr item fa tci = Inl index_error"
      by (simp add: handle_item_Inl item_ok_def)
    with False show ?thesis by simp
  qed
qed

lemma body_events_Cons:
  "body_events py_repr (ev # evs) =
     concat (map (item_events py_repr) ev) @ body_events py_repr evs"
  by (simp add: body_events_def)

lemma events_loop_fault:
  "\<not> list_all (list_all item_ok) evs \<Longrightarrow>
   events_loop py_repr evs fa tci = (body_events py_repr (consumed evs), Inl index_error)"
proof (induction evs arbitrary: fa tci)
  case Nil
  then show ?case by simp
next
  case (Cons ev rest)
  show ?case
  proof (cases "list_all item_ok ev")
    case True
    then have "\<forall>item\<in>set ev. item_ok item" by (simp add: list_all_iff)
    then obtain fa1 tci1 where
      h: "items_loop py_repr ev fa tci = (concat (map (item_events py_repr) ev), Inr (fa1, tci1))"
      using items_loop_ok [of ev py_repr fa tci] by auto
    from True Cons.prems have "\<not> list_all (list_all item_ok) rest" by simp
    from Cons.IH [OF this, of fa1 tci1] h True show ?thesis
      by (simp add: body_events_Cons)
  next
    case False
    from items_loop_fault [OF False, of py_repr fa tci] False show ?thesis
      by (simp add: body_events_def)
  qed
qed

lemma consumed_ok: "list_all (list_all item_ok) evs \<Longrightarrow> consumed evs = evs"
  by (induction evs) simp_all

lemma consumed_all_ok: "list_all (list_all item_ok) (consumed evs)"
proof (induction evs)
  case Nil
  then show ?case by simp
next
  case (Cons ev rest)
  have "list_all item_ok (takeWhile item_ok ev)"
    by (simp add: list_all_iff) (meson set_takeWhileD)
  with Cons show ?case by simp
qed

lemma consumed_append_fault:
  "\<not> list_all (list_all item_ok) evs \<Longrightarrow> consumed (evs @ later) = consumed evs"
  by (induction evs) auto

lemma stream_agent_response_general:
  "stream_agent_response py_repr ex ui tid =
     body_events py_repr (consumed (events (ex ui tid))) @
     (case fault_of (ex ui tid) of
        Some msg \<Rightarrow> [Error msg]
      | None \<Rightarrow> closing Exhausted (body_events py_repr (consumed (events (ex ui tid)))))"
proof (cases "nonempty_message_lists (ex ui tid)")
  case True
  then have c: "consumed (events (ex ui tid)) = events (ex ui tid)"
    by (simp add: nonempty_message_lists_def consumed_ok)
  have "closing (ending (ex ui tid)) body =
          (case fault_of (ex ui tid) of Some msg \<Rightarrow> [Error msg] | None \<Rightarrow> closing Exhausted body)"
    for body :: "'a adapted_event list"
    using True by (cases "ending (ex ui tid)") (simp_all add: fault_of_def closing_def)
  with stream_agent_response_ok
         [where ex = ex and ui = ui and tid = tid and py_repr = py_repr, OF wf_items [OF True]]
  show ?thesis unfolding c by simp
next
  case False
  then have nf: "\<not> list_all (list_all item_ok) (events (ex ui tid))"
    by (simp add: nonempty_message_lists_def)
  from False have f: "fault_of (ex ui tid) = Some index_error"
    by (simp add: fault_of_def)
  from events_loop_fault [OF nf, of py_repr "Text []" "[]"] show ?thesis
    unfolding f by (simp add: stream_agent_response_def)
qed

lemma emitted_before_fault_eq:
  "emitted_before_fault py_repr s = body_events py_repr (consumed (events s))"
proof -
  have ok: "nonempty_message_lists (before_fault s)"
    by (simp add: nonempty_message_lists_def before_fault_def consumed_all_ok)
  then have f: "fault_of (before_fault s) = None"
    by (simp add: fault_of_def before_fault_def)
  have c: "consumed (events (before_fault s)) = consumed (events s)"
    using consumed_ok [OF consumed_all_ok [of "events s"]] by (simp add: before_fault_def)
  have "stream_agent_response py_repr (\<lambda>ui t. before_fault s) [] [] =
          body_events py_repr (consumed (events s))
          @ closing Exhausted (body_events py_repr (consumed (events s)))"
    using stream_agent_response_general [where ex = "\<lambda>ui t. before_fault s" and ui = "[]"
            and tid = "[]" and py_repr = py_repr]
    by (simp add: f c)
  moreover have "filter (\<lambda>x. \<not> is_final x) (closing Exhausted body) = []"
    for body :: "'a adapted_event list"
    by (simp add: closing_def)
  ultimately show ?thesis
    by (simp add: emitted_before_fault_def clean_filter [OF body_events_clean])
qed

lemma shown_append: "shown (xs @ ys) = shown xs @ shown ys"
  by (induction xs rule: shown.induct) simp_all

lemma shown_clean: "\<forall>e\<in>set body. \<not> is_final e \<and> \<not> is_error e \<Longrightarrow> shown body = answers body"
  by (induction body rule: shown.induct) simp_all

lemma consume_events_error:
  "list_ex is_error es \<Longrightarrow> consume_events es fa tcs = None"
  by (induction es fa tcs rule: consume_events.induct) simp_all

lemma consume_events_ok:
  "\<not> list_ex is_error es \<Longrightarrow>
   consume_events es fa tcs =
     Some (last (fa # shown es), tcs @ map tool_message (tool_call_names es))"
  by (induction es fa tcs rule: consume_events.induct) simp_all

lemma messages_foldl_append:
  "messages (foldl messages_append st ms) = messages st @ ms"
  by (induction ms arbitrary: st) (simp_all add: messages_append_def)

lemma thread_id_foldl_append:
  "thread_id (foldl messages_append st ms) = thread_id st"
  by (induction ms arbitrary: st) (simp_all add: messages_append_def)

lemma cycle_shape:
  assumes ne: "\<not> list_ex is_error (stream_agent_response py_repr ex ui tid)"
  shows "\<exists>body. stream_agent_response py_repr ex ui tid = body @ closing Exhausted body
           \<and> (\<forall>e\<in>set body. \<not> is_final e \<and> \<not> is_error e)
           \<and> (\<forall>c\<in>set (answers body). truthy c)"
proof -
  from stream_agent_response_shape [of py_repr ex ui tid]
  obtain body tail where out: "stream_agent_response py_repr ex ui tid = body @ tail"
    and clean: "\<forall>e\<in>set body. \<not> is_final e \<and> \<not> is_error e"
    and tr: "\<forall>c\<in>set (answers body). truthy c"
    and tail: "(\<exists>msg. tail = [Error msg]) \<or> tail = closing Exhausted body"
    by blast
  from ne out have "\<not> (\<exists>msg. tail = [Error msg])"
    by (auto simp: list_ex_iff)
  with tail have "tail = closing Exhausted body" by blast
  with out clean tr show ?thesis by blast
qed

lemma consume_cycle:
  assumes clean: "\<forall>e\<in>set body. \<not> is_final e \<and> \<not> is_error e"
  shows "consume_events (body @ closing Exhausted body) (Text []) [] =
           Some (last (Text [] # answers body), map tool_message (tool_call_names body))"
proof -
  have ne: "\<not> list_ex is_error (body @ closing Exhausted body)"
    using clean by (auto simp: list_ex_iff closing_def)
  have sh: "last (Text [] # shown (body @ closing Exhausted body)) = last (Text [] # answers body)"
    by (simp add: shown_append shown_clean [OF clean] closing_def)
  show ?thesis
    unfolding consume_events_ok [OF ne] sh by (simp add: tool_call_names_body)
qed

lemma display_message_recognized:
  "recognized m \<Longrightarrow> display_message m = [rendered m]"
  by (auto simp: recognized_def display_message_def rendered_def ascii_def)

section \<open>The claims\<close>

subsection \<open>C1: one tool-call event for each reasoning-stage event that requests a tool\<close>

text \<open>
  C1. Let every raw event of the stream be a dict (its keys are distinct) whose message
  lists, where present, are not empty (the input contract of the adapter). Then the \<open>ToolCall\<close> events that the adapter
  emits are, in input order, one for each raw event whose reasoning stage requests a tool,
  and each carries the name of the first invocation requested there, however many are
  requested and however the stream ends.
\<close>

theorem tool_calls_one_per_agent_event:
  assumes "distinct_keys (agent_executor user_input tid)"
    and "nonempty_message_lists (agent_executor user_input tid)"
  shows "filter is_tool_call (stream_agent_response py_repr agent_executor user_input tid) =
           map ToolCall (List.map_filter requested_tool (events (agent_executor user_input tid)))"
proof -
  let ?evs = "events (agent_executor user_input tid)"
  let ?out = "stream_agent_response py_repr agent_executor user_input tid"
  have proj: "filter is_tool_call xs = map ToolCall (tool_call_names xs)"
    for xs :: "'a adapted_event list"
    by (induction xs rule: tool_call_names.induct) simp_all
  from assms have wf: "\<forall>ev\<in>set ?evs. \<forall>item\<in>set ev. item_ok item"
    and dist: "\<forall>ev\<in>set ?evs. distinct (map fst ev)"
    by (simp_all add: nonempty_message_lists_def distinct_keys_def list_all_iff)
  have "tool_call_names ?out = tool_call_names (body_events py_repr ?evs)"
    unfolding stream_agent_response_ok
      [where ex = agent_executor and ui = user_input and tid = tid, OF wf]
    by (rule tool_call_names_body)
  also have "\<dots> = List.map_filter item_tool_request (concat ?evs)"
    by (simp add: body_events_def tool_call_names_items)
  also have "\<dots> = List.map_filter requested_tool ?evs"
    using dist by (rule requested_tool_events)
  finally show ?thesis by (simp add: proj)
qed

theorem tool_calls_one_per_agent_event_witness:
  "distinct_keys lookup_then_answer \<and> nonempty_message_lists lookup_then_answer
   \<and> filter is_tool_call (stream_agent_response (\<lambda>bs. []) (\<lambda>ui t. lookup_then_answer) [] [])
       = [ToolCall (ascii ''lookup'')]"
proof -
  have d: "distinct_keys lookup_then_answer"
    by (simp add: distinct_keys_def lookup_then_answer_def)
  have n: "nonempty_message_lists lookup_then_answer"
    by (simp add: nonempty_message_lists_def item_ok_def lookup_then_answer_def)
  have r: "List.map_filter requested_tool (events lookup_then_answer) = [ascii ''lookup'']"
    by (simp add: lookup_then_answer_def requested_tool_def ascii_def)
  from tool_calls_one_per_agent_event
         [where agent_executor = "\<lambda>ui t. lookup_then_answer", OF d n] r
  show ?thesis using d n by simp
qed

subsection \<open>C2: the final event\<close>

text \<open>
  C2. Let the stream be consumed without fault: it is exhausted, and its message lists
  are not empty. Then every final event of the adapter's output comes after every other
  event; there is no final event when no item of the raw events is an answer (a
  reasoning-stage item whose last message has a non-empty content and no invocations), and
  otherwise exactly one, which carries the content of the last such answer and the log of
  all tool-call events of the output, in order.
\<close>

theorem final_once_and_last:
  assumes "ending (agent_executor user_input tid) = Exhausted"
    and "nonempty_message_lists (agent_executor user_input tid)"
  shows "(let out = stream_agent_response py_repr agent_executor user_input tid;
              given = List.map_filter item_answer (concat (events (agent_executor user_input tid)))
          in out = filter (\<lambda>e. \<not> is_final e) out @ filter is_final out
             \<and> filter is_final out =
                 (if given = [] then []
                  else [Final (last given) (map tool_message (tool_call_names out))]))"
proof -
  let ?s = "agent_executor user_input tid"
  let ?body = "body_events py_repr (events ?s)"
  have out: "stream_agent_response py_repr agent_executor user_input tid
               = ?body @ closing Exhausted ?body"
    using stream_agent_response_ok
      [where ex = agent_executor and ui = user_input and tid = tid, OF wf_items [OF assms(2)]]
    by (simp add: assms(1))
  note clean = clean_filter [OF body_events_clean [of py_repr "events ?s"]]
  have given: "List.map_filter item_answer (concat (events ?s)) = answers ?body"
    by (simp add: answers_body_events)
  have fin: "filter is_final (closing Exhausted ?body) = closing Exhausted ?body"
    and nfin: "filter (\<lambda>e. \<not> is_final e) (closing Exhausted ?body) = []"
    by (simp_all add: closing_def)
  have cl: "closing Exhausted ?body =
              (if answers ?body = [] then []
               else [Final (last (answers ?body)) (map tool_message (tool_call_names ?body))])"
    by (simp add: closing_def)
  show ?thesis
    unfolding Let_def out given
    by (simp add: clean fin nfin tool_call_names_body) (simp add: cl)
qed

theorem final_once_and_last_witness:
  "ending lookup_then_answer = Exhausted
   \<and> nonempty_message_lists lookup_then_answer
   \<and> filter is_final (stream_agent_response (\<lambda>bs. []) (\<lambda>ui t. lookup_then_answer) [] [])
       = [Final (Text (ascii ''G06F'')) [tool_message (ascii ''lookup'')]]
   \<and> last (stream_agent_response (\<lambda>bs. []) (\<lambda>ui t. lookup_then_answer) [] [])
       = Final (Text (ascii ''G06F'')) [tool_message (ascii ''lookup'')]"
proof -
  let ?out = "stream_agent_response (\<lambda>bs. []) (\<lambda>ui t. lookup_then_answer) [] []"
  have e: "ending ((\<lambda>ui t. lookup_then_answer) [] []) = Exhausted"
    by (simp add: lookup_then_answer_def)
  have n: "nonempty_message_lists ((\<lambda>ui t. lookup_then_answer) [] [])"
    by (simp add: nonempty_message_lists_def item_ok_def lookup_then_answer_def)
  have g: "List.map_filter item_answer (concat (events lookup_then_answer)) = [Text (ascii ''G06F'')]"
    by (simp add: lookup_then_answer_def item_answer_def ascii_def)
  have t: "tool_call_names ?out = [ascii ''lookup'']"
    by (simp add: stream_agent_response_def lookup_then_answer_def ascii_def)
  have nf: "filter (\<lambda>e. \<not> is_final e) ?out
              = [ToolCall (ascii ''lookup''), ToolResult 3, Answer (Text (ascii ''G06F''))]"
    by (simp add: stream_agent_response_def lookup_then_answer_def ascii_def)
  note th = final_once_and_last
         [where agent_executor = "\<lambda>ui t. lookup_then_answer" and py_repr = "\<lambda>bs. []"
            and user_input = "[]" and tid = "[]", OF e n]
  have rhs: "(if List.map_filter item_answer (concat (events lookup_then_answer)) = [] then []
              else [Final (last (List.map_filter item_answer (concat (events lookup_then_answer))))
                      (map tool_message (tool_call_names ?out))])
             = [Final (Text (ascii ''G06F'')) [tool_message (ascii ''lookup'')]]"
    by (simp add: g t)
  from th have both: "?out = filter (\<lambda>e. \<not> is_final e) ?out @ filter is_final ?out
              \<and> filter is_final ?out =
                [Final (Text (ascii ''G06F'')) [tool_message (ascii ''lookup'')]]"
    unfolding Let_def rhs .
  from both have split: "?out = filter (\<lambda>e. \<not> is_final e) ?out @ filter is_final ?out" ..
  from both have fin: "filter is_final ?out =
                [Final (Text (ascii ''G06F'')) [tool_message (ascii ''lookup'')]]" ..
  from split have "last ?out = last (filter (\<lambda>e. \<not> is_final e) ?out @ filter is_final ?out)"
    by simp
  then have "last ?out = Final (Text (ascii ''G06F'')) [tool_message (ascii ''lookup'')]"
    unfolding fin nf by simp
  with e n fin show ?thesis by simp
qed

subsection \<open>C3: a fault while the stream is consumed\<close>

text \<open>
  C3. Let consuming the stream meet a fault with description \<open>msg\<close>: the stream raises
  after its events, or before that the loop body raises on an empty message list. The
  adapter returns a list (it raises nothing) that ends with one error event, which
  carries \<open>msg\<close>. The events before it hold no error and no final event, and they are
  exactly what the adapter emits for the raw events consumed before the fault on a stream
  that ends there without a fault, but for the final event. Consumption stops at a fault
  of the loop body: whatever raw events follow it, and however the stream ends after
  them, the output is the same.
\<close>

theorem fault_gives_single_error:
  assumes "fault_of (agent_executor user_input tid) = Some msg"
  shows "stream_agent_response py_repr agent_executor user_input tid =
           emitted_before_fault py_repr (agent_executor user_input tid) @ [Error msg]
         \<and> list_all (\<lambda>x. \<not> is_error x \<and> \<not> is_final x)
             (emitted_before_fault py_repr (agent_executor user_input tid))
         \<and> (\<not> nonempty_message_lists (agent_executor user_input tid) \<longrightarrow>
              (\<forall>later e.
                 stream_agent_response py_repr
                   (\<lambda>ui t. (agent_executor user_input tid)
                              \<lparr>events := events (agent_executor user_input tid) @ later,
                               ending := e\<rparr>)
                   user_input tid =
                 stream_agent_response py_repr agent_executor user_input tid))"
proof -
  let ?s = "agent_executor user_input tid"
  let ?body = "body_events py_repr (consumed (events ?s))"
  have out: "stream_agent_response py_repr agent_executor user_input tid = ?body @ [Error msg]"
    using stream_agent_response_general
            [where ex = agent_executor and ui = user_input and tid = tid and py_repr = py_repr]
    by (simp add: assms)
  have 1: "stream_agent_response py_repr agent_executor user_input tid =
             emitted_before_fault py_repr ?s @ [Error msg]"
    unfolding emitted_before_fault_eq by (rule out)
  have 2: "list_all (\<lambda>x. \<not> is_error x \<and> \<not> is_final x) (emitted_before_fault py_repr ?s)"
    unfolding emitted_before_fault_eq
    using body_events_clean [of py_repr "consumed (events ?s)"] by (simp add: list_all_iff)
  have 3: "stream_agent_response py_repr
             (\<lambda>ui t. ?s\<lparr>events := events ?s @ later, ending := e\<rparr>) user_input tid =
           stream_agent_response py_repr agent_executor user_input tid"
    if bad: "\<not> nonempty_message_lists ?s" for later e
  proof -
    let ?s' = "?s\<lparr>events := events ?s @ later, ending := e\<rparr>"
    from bad have nf: "\<not> list_all (list_all item_ok) (events ?s)"
      by (simp add: nonempty_message_lists_def)
    then have c: "consumed (events ?s') = consumed (events ?s)"
      by (simp add: consumed_append_fault)
    from nf have f': "fault_of ?s' = Some index_error"
      by (simp add: fault_of_def nonempty_message_lists_def)
    from bad assms have m: "msg = index_error" by (simp add: fault_of_def)
    have "stream_agent_response py_repr (\<lambda>ui t. ?s') user_input tid = ?body @ [Error index_error]"
      using stream_agent_response_general
              [where ex = "\<lambda>ui t. ?s'" and ui = user_input and tid = tid and py_repr = py_repr]
      by (simp only: c f' option.case)
    with out m show ?thesis by simp
  qed
  from 3 have stop: "\<not> nonempty_message_lists ?s \<longrightarrow>
              (\<forall>later e.
                 stream_agent_response py_repr
                   (\<lambda>ui t. ?s\<lparr>events := events ?s @ later, ending := e\<rparr>) user_input tid =
                 stream_agent_response py_repr agent_executor user_input tid)"
    by blast
  from 1 2 stop show ?thesis by blast
qed

theorem fault_gives_single_error_witness:
  "fault_of lookup_then_raise = Some (ascii ''timeout'')
   \<and> stream_agent_response (\<lambda>bs. []) (\<lambda>ui t. lookup_then_raise) [] []
       = [ToolCall (ascii ''lookup''), Error (ascii ''timeout'')]
   \<and> fault_of answer_then_empty_list = Some index_error
   \<and> \<not> nonempty_message_lists answer_then_empty_list
   \<and> stream_agent_response (\<lambda>bs. []) (\<lambda>ui t. answer_then_empty_list) [] []
       = [Answer (Text (ascii ''A'')), Error index_error]
   \<and> stream_agent_response (\<lambda>bs. []) (\<lambda>ui t. empty_list_then_more) [] []
       = [Answer (Text (ascii ''A'')), Error index_error]"
proof -
  have n1: "nonempty_message_lists lookup_then_raise"
    by (simp add: nonempty_message_lists_def item_ok_def lookup_then_raise_def)
  then have f1: "fault_of ((\<lambda>ui t. lookup_then_raise) [] []) = Some (ascii ''timeout'')"
    by (simp add: fault_of_def) (simp add: lookup_then_raise_def)
  have b1: "emitted_before_fault (\<lambda>bs. []) lookup_then_raise = [ToolCall (ascii ''lookup'')]"
    by (simp add: emitted_before_fault_def before_fault_def stream_agent_response_def
                  lookup_then_raise_def item_ok_def ascii_def)
  have n2: "\<not> nonempty_message_lists ((\<lambda>ui t. answer_then_empty_list) [] [])"
    by (simp add: nonempty_message_lists_def item_ok_def answer_then_empty_list_def)
  then have f2: "fault_of ((\<lambda>ui t. answer_then_empty_list) [] []) = Some index_error"
    by (simp add: fault_of_def)
  have b2: "emitted_before_fault (\<lambda>bs. []) answer_then_empty_list = [Answer (Text (ascii ''A''))]"
    by (simp add: emitted_before_fault_def before_fault_def stream_agent_response_def
                  answer_then_empty_list_def item_ok_def ascii_def)
  note t1 = fault_gives_single_error
              [where agent_executor = "\<lambda>ui t. lookup_then_raise" and py_repr = "\<lambda>bs. []"
                 and user_input = "[]" and tid = "[]", OF f1]
  note t2 = fault_gives_single_error
              [where agent_executor = "\<lambda>ui t. answer_then_empty_list" and py_repr = "\<lambda>bs. []"
                 and user_input = "[]" and tid = "[]", OF f2]
  from t1 have o1: "stream_agent_response (\<lambda>bs. []) (\<lambda>ui t. lookup_then_raise) [] []
                      = [ToolCall (ascii ''lookup''), Error (ascii ''timeout'')]"
    unfolding b1 by simp
  from t2 have o2: "stream_agent_response (\<lambda>bs. []) (\<lambda>ui t. answer_then_empty_list) [] []
                      = [Answer (Text (ascii ''A'')), Error index_error]"
    unfolding b2 by simp
  from t2 n2 have "\<forall>later e.
      stream_agent_response (\<lambda>bs. [])
        (\<lambda>ui t. answer_then_empty_list
                   \<lparr>events := events answer_then_empty_list @ later, ending := e\<rparr>) [] []
      = stream_agent_response (\<lambda>bs. []) (\<lambda>ui t. answer_then_empty_list) [] []"
    by blast
  then have o3: "stream_agent_response (\<lambda>bs. []) (\<lambda>ui t. empty_list_then_more) [] []
                   = [Answer (Text (ascii ''A'')), Error index_error]"
    unfolding empty_list_then_more_def o2 by blast
  from f1 o1 f2 n2 o2 o3 show ?thesis by simp
qed

subsection \<open>C4: a response cycle with an error event\<close>

text \<open>
  C4. When the adapted events of a response cycle hold an error event,
  \<^verbatim>\<open>process_user_input\<close> leaves the session as it was but for the user's own message
  appended to the message list: no assistant message and no tool message is stored.
\<close>

theorem error_keeps_only_user_message:
  assumes "list_ex is_error
             (stream_agent_response py_repr agent_executor user_input (thread_id st))"
  shows "process_user_input py_repr user_input agent_executor st =
           st\<lparr>messages := messages st @ [user_message user_input]\<rparr>"
proof -
  have tid: "thread_id (messages_append st (user_message user_input)) = thread_id st"
    by (simp add: messages_append_def)
  show ?thesis
    unfolding process_user_input_def Let_def tid
    by (simp add: consume_events_error [OF assms] messages_append_def)
qed

theorem error_keeps_only_user_message_witness:
  "list_ex is_error
     (stream_agent_response (\<lambda>bs. []) (\<lambda>ui t. lookup_then_raise) (ascii ''q'')
        (thread_id session0))
   \<and> messages (process_user_input (\<lambda>bs. []) (ascii ''q'') (\<lambda>ui t. lookup_then_raise) session0)
       = [user_message (ascii ''hi''), user_message (ascii ''q'')]
   \<and> thread_id (process_user_input (\<lambda>bs. []) (ascii ''q'') (\<lambda>ui t. lookup_then_raise) session0)
       = thread_id session0"
proof -
  have h: "list_ex is_error
             (stream_agent_response (\<lambda>bs. []) (\<lambda>ui t. lookup_then_raise) (ascii ''q'')
                (thread_id session0))"
    by (simp add: stream_agent_response_def lookup_then_raise_def ascii_def)
  from error_keeps_only_user_message [OF h]
  have "process_user_input (\<lambda>bs. []) (ascii ''q'') (\<lambda>ui t. lookup_then_raise) session0
          = session0\<lparr>messages := messages session0 @ [user_message (ascii ''q'')]\<rparr>" .
  then have "messages (process_user_input (\<lambda>bs. []) (ascii ''q'') (\<lambda>ui t. lookup_then_raise) session0)
       = [user_message (ascii ''hi''), user_message (ascii ''q'')]"
    and "thread_id (process_user_input (\<lambda>bs. []) (ascii ''q'') (\<lambda>ui t. lookup_then_raise) session0)
       = thread_id session0"
    by (simp_all add: session0_def)
  with h show ?thesis by blast
qed

subsection \<open>C5: appending to the session\<close>



subsection \<open>C6: replaying the session\<close>

text \<open>
  C6. Let every stored message have a recognized role. Replaying the session gives one
  entry for each message, in the stored order: the content of a user or assistant
  message, and for a tool message a caption made of its tool name and the running
  indicator, which is the same whatever the content of the message.
\<close>

theorem display_one_entry_per_message:
  assumes "list_all recognized (messages st)"
  shows "display_chat_messages st = map rendered (messages st)
         \<and> length (display_chat_messages st) = length (messages st)
         \<and> (\<forall>m\<in>set (messages st).
               role m = ascii ''tool'' \<longrightarrow> (\<forall>c. rendered (m\<lparr>content := c\<rparr>) = rendered m))"
proof -
  have "concat (map display_message ms) = map rendered ms" if "list_all recognized ms"
    for ms :: "'a message list"
    using that by (induction ms) (simp_all add: display_message_recognized)
  with assms have 1: "display_chat_messages st = map rendered (messages st)"
    by (simp add: display_chat_messages_def)
  then have 2: "length (display_chat_messages st) = length (messages st)" by simp
  have 3: "\<forall>m\<in>set (messages st).
             role m = ascii ''tool'' \<longrightarrow> (\<forall>c. rendered (m\<lparr>content := c\<rparr>) = rendered m)"
    by (simp add: rendered_def)
  from 1 2 3 show ?thesis by blast
qed

theorem display_one_entry_per_message_witness:
  "list_all recognized (messages transcript)
   \<and> display_chat_messages transcript =
       [ChatMessage (ascii ''user'') (Write (Text (ascii ''q''))),
        ChatMessage (ascii ''assistant'') (Write (Text (ascii ''a''))),
        ChatMessage (ascii ''assistant'') (Caption (ascii ''lookup'' @ running_suffix))]
   \<and> length (display_chat_messages transcript) = 3"
proof -
  have r: "list_all recognized (messages transcript)"
    by (simp add: transcript_def recognized_def user_message_def assistant_message_def
                  tool_message_def)
  have m: "map rendered (messages transcript) =
       [ChatMessage (ascii ''user'') (Write (Text (ascii ''q''))),
        ChatMessage (ascii ''assistant'') (Write (Text (ascii ''a''))),
        ChatMessage (ascii ''assistant'') (Caption (ascii ''lookup'' @ running_suffix))]"
    by (simp add: transcript_def rendered_def user_message_def assistant_message_def
                  tool_message_def ascii_def)
  have l: "length (messages transcript) = 3" by (simp add: transcript_def)
  from display_one_entry_per_message [OF r] have
    "display_chat_messages transcript = map rendered (messages transcript)"
    and "length (display_chat_messages transcript) = length (messages transcript)"
    by blast+
  with r m l show ?thesis by simp
qed

subsection \<open>C7: starting a new conversation\<close>



subsection \<open>C8: the tool-result event\<close>

text \<open>
  C8. Let the message lists of the raw events be not empty. The lengths carried by the
  tool-result events of the output are, in input order, the lengths of the stringified
  content of the last message of every tool-execution item that carries a message list.
  The tool output itself is not emitted: the output of the adapter is the same when every
  content of the tool-execution stage is replaced by zeros of the same stringified length.
\<close>

theorem tool_result_carries_length_only:
  assumes "nonempty_message_lists (agent_executor user_input tid)"
  shows "tool_result_lengths (stream_agent_response py_repr agent_executor user_input tid) =
           List.map_filter (item_output_length py_repr)
             (concat (events (agent_executor user_input tid)))
         \<and> stream_agent_response py_repr
             (\<lambda>ui t. redact py_repr (agent_executor user_input tid)) user_input tid =
           stream_agent_response py_repr agent_executor user_input tid"
proof -
  let ?s = "agent_executor user_input tid"
  have "tool_result_lengths (stream_agent_response py_repr agent_executor user_input tid)
          = tool_result_lengths (body_events py_repr (events ?s))"
    unfolding stream_agent_response_ok
      [where ex = agent_executor and ui = user_input and tid = tid, OF wf_items [OF assms]]
    by (rule tool_result_lengths_body)
  then have 1: "tool_result_lengths (stream_agent_response py_repr agent_executor user_input tid) =
           List.map_filter (item_output_length py_repr) (concat (events ?s))"
    by (simp add: body_events_def tool_result_lengths_items)
  have 2: "stream_agent_response py_repr (\<lambda>ui t. redact py_repr ?s) user_input tid =
           stream_agent_response py_repr agent_executor user_input tid"
    by (simp add: stream_agent_response_def redact_def events_loop_redact Let_def)
  from 1 2 show ?thesis by (rule conjI)
qed

theorem tool_result_carries_length_only_witness:
  "nonempty_message_lists lookup_then_answer
   \<and> tool_result_lengths (stream_agent_response (\<lambda>bs. []) (\<lambda>ui t. lookup_then_answer) [] []) = [3]
   \<and> stream_agent_response (\<lambda>bs. []) (\<lambda>ui t. redact (\<lambda>bs. []) lookup_then_answer) [] [] =
     stream_agent_response (\<lambda>bs. []) (\<lambda>ui t. lookup_then_answer) [] []"
proof -
  have n: "nonempty_message_lists ((\<lambda>ui t. lookup_then_answer) [] [])"
    by (simp add: nonempty_message_lists_def item_ok_def lookup_then_answer_def)
  have r: "List.map_filter (item_output_length (\<lambda>bs. [])) (concat (events lookup_then_answer)) = [3]"
    by (simp add: lookup_then_answer_def item_output_length_def ascii_def)
  from tool_result_carries_length_only
         [where agent_executor = "\<lambda>ui t. lookup_then_answer" and py_repr = "\<lambda>bs. []", OF n] r n
  show ?thesis by simp
qed

subsection \<open>C9: what a fault-free response cycle stores\<close>

text \<open>
  C9. Let the adapted events of a response cycle hold no error event. If they hold a
  final event, the cycle appends to the message list the user's message, then one
  assistant message with the final answer, then one tool message for each tool-call
  event, in the order of emission: the tool notices are stored after the answer that
  they preceded. If they hold no final event, only the user's message is appended, even
  when there were tool-call events.
\<close>

theorem fault_free_cycle_appends:
  assumes "\<not> list_ex is_error
             (stream_agent_response py_repr agent_executor user_input (thread_id st))"
  shows "(\<forall>c tci. Final c tci \<in> set (stream_agent_response py_repr agent_executor user_input
                                        (thread_id st)) \<longrightarrow>
            messages (process_user_input py_repr user_input agent_executor st) =
              messages st @ [user_message user_input, assistant_message c]
              @ map tool_message
                  (tool_call_names (stream_agent_response py_repr agent_executor user_input
                                      (thread_id st))))
         \<and> (\<not> list_ex is_final (stream_agent_response py_repr agent_executor user_input
                                    (thread_id st)) \<longrightarrow>
              messages (process_user_input py_repr user_input agent_executor st) =
                messages st @ [user_message user_input])"
proof -
  let ?out = "stream_agent_response py_repr agent_executor user_input (thread_id st)"
  let ?st1 = "messages_append st (user_message user_input)"
  from cycle_shape [OF assms] obtain body where
    out: "?out = body @ closing Exhausted body"
    and clean: "\<forall>e\<in>set body. \<not> is_final e \<and> \<not> is_error e"
    and tr: "\<forall>c\<in>set (answers body). truthy c"
    by blast
  have tid: "thread_id ?st1 = thread_id st" by (simp add: messages_append_def)
  define fa where "fa = last (Text [] # answers body)"
  have cc: "consume_events (body @ closing Exhausted body) (Text []) [] =
              Some (fa, map tool_message (tool_call_names body))"
    unfolding fa_def using clean by (rule consume_cycle)
  have t: "truthy fa \<longleftrightarrow> answers body \<noteq> []"
    unfolding fa_def using tr by (rule truthy_last_answers)
  have fa': "fa = last (answers body)" if "answers body \<noteq> []"
    using that by (simp add: fa_def)
  have res: "messages (process_user_input py_repr user_input agent_executor st) =
               messages st @ user_message user_input #
               (if answers body = [] then []
                else assistant_message (last (answers body))
                     # map tool_message (tool_call_names body))"
  proof (cases "answers body = []")
    case True
    with t have "\<not> truthy fa" by simp
    with True show ?thesis
      unfolding process_user_input_def Let_def tid out cc
      by (simp add: messages_append_def)
  next
    case False
    with t have "truthy fa" by simp
    with False fa' [OF False] show ?thesis
      unfolding process_user_input_def Let_def tid out cc
      by (simp add: messages_foldl_append messages_append_def)
  qed
  have nofin: "filter is_final body = []" using clean by (rule clean_filter(1))
  have names: "tool_call_names ?out = tool_call_names body"
    unfolding out by (rule tool_call_names_body)
  have 1: "messages (process_user_input py_repr user_input agent_executor st) =
              messages st @ [user_message user_input, assistant_message c]
              @ map tool_message (tool_call_names ?out)"
    if "Final c tci \<in> set ?out" for c tci
  proof -
    from that clean have "Final c tci \<in> set (closing Exhausted body)"
      unfolding out by auto
    then have "answers body \<noteq> []" and "c = last (answers body)"
      by (auto simp: closing_def split: if_splits)
    with res names show ?thesis by simp
  qed
  have 2: "messages (process_user_input py_repr user_input agent_executor st) =
             messages st @ [user_message user_input]"
    if "\<not> list_ex is_final ?out"
  proof -
    from that have "answers body = []"
      unfolding out by (auto simp: closing_def list_ex_iff split: if_splits)
    with res show ?thesis by simp
  qed
  from 1 2 show ?thesis by blast
qed

theorem fault_free_cycle_appends_witness:
  "\<not> list_ex is_error
       (stream_agent_response (\<lambda>bs. []) (\<lambda>ui t. lookup_then_answer) (ascii ''q'')
          (thread_id session0))
   \<and> \<not> list_ex is_error
       (stream_agent_response (\<lambda>bs. []) (\<lambda>ui t. lookup_without_answer) (ascii ''q'')
          (thread_id session0))
   \<and> messages (process_user_input (\<lambda>bs. []) (ascii ''q'') (\<lambda>ui t. lookup_then_answer) session0)
       = [user_message (ascii ''hi''), user_message (ascii ''q''),
          assistant_message (Text (ascii ''G06F'')), tool_message (ascii ''lookup'')]
   \<and> messages (process_user_input (\<lambda>bs. []) (ascii ''q'') (\<lambda>ui t. lookup_without_answer) session0)
       = [user_message (ascii ''hi''), user_message (ascii ''q'')]"
proof -
  let ?a = "stream_agent_response (\<lambda>bs. []) (\<lambda>ui t. lookup_then_answer) (ascii ''q'')
              (thread_id session0)"
  let ?n = "stream_agent_response (\<lambda>bs. []) (\<lambda>ui t. lookup_without_answer) (ascii ''q'')
              (thread_id session0)"
  have a: "?a = [ToolCall (ascii ''lookup''), ToolResult 3, Answer (Text (ascii ''G06F'')),
                 Final (Text (ascii ''G06F'')) [tool_message (ascii ''lookup'')]]"
    by (simp add: stream_agent_response_def lookup_then_answer_def ascii_def)
  have n: "?n = [ToolCall (ascii ''lookup''), ToolResult 3]"
    by (simp add: stream_agent_response_def lookup_without_answer_def ascii_def)
  have ha: "\<not> list_ex is_error ?a" unfolding a by simp
  have hn: "\<not> list_ex is_error ?n" unfolding n by simp
  have fa: "Final (Text (ascii ''G06F'')) [tool_message (ascii ''lookup'')] \<in> set ?a"
    unfolding a by simp
  have ta: "tool_call_names ?a = [ascii ''lookup'']" unfolding a by simp
  have fn: "\<not> list_ex is_final ?n" unfolding n by simp
  from fault_free_cycle_appends [OF ha] fa
  have "messages (process_user_input (\<lambda>bs. []) (ascii ''q'') (\<lambda>ui t. lookup_then_answer) session0)
          = messages session0 @ [user_message (ascii ''q''), assistant_message (Text (ascii ''G06F''))]
            @ map tool_message (tool_call_names ?a)"
    by blast
  then have 1: "messages (process_user_input (\<lambda>bs. []) (ascii ''q'') (\<lambda>ui t. lookup_then_answer) session0)
       = [user_message (ascii ''hi''), user_message (ascii ''q''),
          assistant_message (Text (ascii ''G06F'')), tool_message (ascii ''lookup'')]"
    unfolding ta by (simp add: session0_def)
  from fault_free_cycle_appends [OF hn] fn
  have "messages (process_user_input (\<lambda>bs. []) (ascii ''q'') (\<lambda>ui t. lookup_without_answer) session0)
          = messages session0 @ [user_message (ascii ''q'')]"
    by blast
  then have 2: "messages (process_user_input (\<lambda>bs. []) (ascii ''q'') (\<lambda>ui t. lookup_without_answer) session0)
       = [user_message (ascii ''hi''), user_message (ascii ''q'')]"
    by (simp add: session0_def)
  from ha hn 1 2 show ?thesis by blast
qed

subsection \<open>C10: the adapter depends on the consumed raw events only\<close>

text \<open>
  C10. The output of the adapter is a function of the raw events consumed and of the
  fault met, if any: two runs whose streams agree on both emit the same adapted events,
  whatever the executors, the user inputs and the thread identifiers are, and whatever
  the streams hold after a fault. In particular two runs over the same stream emit the
  same events.
\<close>

theorem adapter_depends_on_stream_only:
  assumes "consumed (events (agent_executor user_input tid)) =
             consumed (events (agent_executor' user_input' tid'))"
    and "fault_of (agent_executor user_input tid) = fault_of (agent_executor' user_input' tid')"
  shows "stream_agent_response py_repr agent_executor user_input tid =
           stream_agent_response py_repr agent_executor' user_input' tid'"
  unfolding stream_agent_response_general [where ex = agent_executor]
    stream_agent_response_general [where ex = agent_executor'] assms ..

theorem adapter_depends_on_stream_only_witness:
  "consumed (events ((\<lambda>ui t. answer_then_empty_list) (ascii ''q'') (ascii ''t1'')))
     = consumed (events (selective_executor (ascii ''other'') (ascii ''t2'')))
   \<and> fault_of ((\<lambda>ui t. answer_then_empty_list) (ascii ''q'') (ascii ''t1''))
     = fault_of (selective_executor (ascii ''other'') (ascii ''t2''))
   \<and> (\<lambda>ui t. answer_then_empty_list) (ascii ''q'') (ascii ''t1'')
     \<noteq> selective_executor (ascii ''other'') (ascii ''t2'')
   \<and> stream_agent_response (\<lambda>bs. []) (\<lambda>ui t. answer_then_empty_list) (ascii ''q'') (ascii ''t1'')
     = stream_agent_response (\<lambda>bs. []) selective_executor (ascii ''other'') (ascii ''t2'')"
proof -
  have s: "selective_executor (ascii ''other'') (ascii ''t2'') = empty_list_then_more"
    by (simp add: selective_executor_def)
  have c: "consumed (events ((\<lambda>ui t. answer_then_empty_list) (ascii ''q'') (ascii ''t1'')))
     = consumed (events (selective_executor (ascii ''other'') (ascii ''t2'')))"
    unfolding s by (simp add: empty_list_then_more_def answer_then_empty_list_def item_ok_def)
  have f: "fault_of ((\<lambda>ui t. answer_then_empty_list) (ascii ''q'') (ascii ''t1''))
     = fault_of (selective_executor (ascii ''other'') (ascii ''t2''))"
    unfolding s
    by (simp add: fault_of_def nonempty_message_lists_def empty_list_then_more_def
                  answer_then_empty_list_def item_ok_def)
  have d: "(\<lambda>ui t. answer_then_empty_list) (ascii ''q'') (ascii ''t1'')
     \<noteq> selective_executor (ascii ''other'') (ascii ''t2'')"
    unfolding s by (simp add: empty_list_then_more_def answer_then_empty_list_def)
  have o: "stream_agent_response (\<lambda>bs. []) (\<lambda>ui t. answer_then_empty_list) (ascii ''q'') (ascii ''t1'')
     = stream_agent_response (\<lambda>bs. []) selective_executor (ascii ''other'') (ascii ''t2'')"
    by (rule adapter_depends_on_stream_only
              [where agent_executor = "\<lambda>ui t. answer_then_empty_list"
                 and user_input = "ascii ''q''" and tid = "ascii ''t1''"
                 and agent_executor' = selective_executor
                 and user_input' = "ascii ''other''" and tid' = "ascii ''t2''", OF c f])
  from c f d o show ?thesis by blast
qed

end
